theory Spec2Isabelle
  imports Main "HOL-Library.Sublist" "HOL-Library.Multiset" "HOL-Library.Word"
begin

section \<open>Data model of \<open>cmd/moss/main.go\<close>\<close>

text \<open>
  The program discovers the recently pushed repositories of some GitHub organizations,
  clones each of them in a goroutine of its own, runs gitleaks on the clone and collects
  one result per goroutine from an unbuffered channel.

  Everything the program does to the outside world (environment, files, the GitHub API,
  subprocesses, the log, the channel) is modelled twice: as an oracle that gives the
  answer of the outside world, and as an event recorded in a trace, in program order.
\<close>

text \<open>A Go \<open>error\<close> value, with the text its \<open>Error()\<close> method yields.\<close>

datatype error = Error string

fun error_text :: "error \<Rightarrow> string" where
  "error_text (Error s) = s"

text \<open>
  One record of the gitleaks report (\<open>GitleaksResult\<close>); its schema belongs to the tool,
  the program only carries it along.
\<close>

datatype GitleaksResult = GitleaksResult string

text \<open>
  The fields of \<open>github.Repository\<close> that the program reads. The go-github struct holds
  each of them behind a pointer, and the program holds the struct behind a pointer too:
  \<open>None\<close> is Go's \<open>nil\<close>. \<open>repo_PushedAt\<close> is an instant of time.
\<close>

record github_Repository =
  repo_Name :: "string option"
  repo_FullName :: "string option"
  repo_URL :: "string option"
  repo_CloneURL :: "string option"
  repo_Private :: "bool option"
  repo_Archived :: "bool option"
  repo_PushedAt :: "int option"

type_synonym repo_ptr = "github_Repository option"

text \<open>
  \<open>repo.Name\<close> and the like, read through the pointer \<open>repo\<close>: the field when both the
  struct and the field are there. Go panics when it has to follow a \<open>nil\<close> pointer;
  a value that may be a panic instead is a \<open>may_panic\<close>.
\<close>

definition ptr_Name :: "repo_ptr \<Rightarrow> string option" where
  "ptr_Name repo = Option.bind repo repo_Name"

definition ptr_URL :: "repo_ptr \<Rightarrow> string option" where
  "ptr_URL repo = Option.bind repo repo_URL"

definition ptr_CloneURL :: "repo_ptr \<Rightarrow> string option" where
  "ptr_CloneURL repo = Option.bind repo repo_CloneURL"

definition ptr_Private :: "repo_ptr \<Rightarrow> bool option" where
  "ptr_Private repo = Option.bind repo repo_Private"

definition ptr_Archived :: "repo_ptr \<Rightarrow> bool option" where
  "ptr_Archived repo = Option.bind repo repo_Archived"

definition ptr_PushedAt :: "repo_ptr \<Rightarrow> int option" where
  "ptr_PushedAt repo = Option.bind repo repo_PushedAt"

text \<open>
  \<open>repo.GetFullName()\<close>, the getter of go-github: the empty string when the struct or
  the field is \<open>nil\<close>.
\<close>

definition GetFullName :: "repo_ptr \<Rightarrow> string" where
  "GetFullName repo = (case Option.bind repo repo_FullName of None \<Rightarrow> [] | Some s \<Rightarrow> s)"

datatype 'a may_panic = Panic | Ok 'a

text \<open>\<open>GitleaksRepoResult\<close>, the value sent on the results channel; \<open>Err = None\<close> is Go's \<open>nil\<close>.\<close>

record GitleaksRepoResult =
  Repository :: string
  URL :: string
  IsPrivate :: bool
  Org :: string
  Results :: "GitleaksResult list"
  Err :: "error option"

text \<open>The fields of \<open>Conf\<close> that \<open>main\<close> reads.\<close>

record Conf =
  OrgsToScan :: "string list"
  DaysToScan :: "64 word"
  Format :: string

datatype level = DebugLevel | InfoLevel | ErrorLevel | FatalLevel

text \<open>
  What the program does to the outside world. A log event carries the level, the fields
  set on it (key and value) and the message.
\<close>

datatype event =
    EvLog level "(string \<times> string) list" string
  | EvGetenv string
  | EvGetConfig string
  | EvReadFile string
  | EvListByOrg string string nat
  | EvMkdirTemp
  | EvExec string "string list"
  | EvSend GitleaksRepoResult
  | EvPanic
  | EvWriteFile string string
  | EvPrintln string

text \<open>
  The outside world as one scanning goroutine meets it: the outcome of
  \<open>os.MkdirTemp\<close>, of running a command (\<open>None\<close> is a \<open>nil\<close> error), of
  \<open>os.ReadFile\<close> and of \<open>json.Unmarshal\<close>.
\<close>

record scan_env =
  os_MkdirTemp :: "error + string"
  cmd_Run :: "string \<Rightarrow> string list \<Rightarrow> error option"
  os_ReadFile :: "string \<Rightarrow> error + string"
  json_Unmarshal :: "string \<Rightarrow> error + GitleaksResult list"

text \<open>
  The outside world as \<open>main\<close> meets it. \<open>github_ListByOrg pat org page\<close> is the answer of
  the API client built on the token \<open>pat\<close>; \<open>range_pats\<close> is the order in which Go walks
  the map \<open>pats\<close>; \<open>go_env i\<close> is the world of the \<open>i\<close>-th goroutine started and
  \<open>chan_order\<close> the order in which the goroutines get to hand over what they send.
  \<open>conf_getConfig\<close> and \<open>json_output\<close> stand for the functions of the same names, which
  live in other files of the program. \<open>time_Now_AddDate org d\<close> is the instant that
  \<open>time.Now().AddDate(0, 0, d)\<close> yields for the Go \<open>int\<close> \<open>d\<close> when \<open>get_org_repos\<close> is
  called for the organization \<open>org\<close>: the clock, the time zone and the calendar are the
  world's.
\<close>

record world =
  os_Getenv :: "string \<Rightarrow> string"
  conf_getConfig :: "string \<Rightarrow> Conf"
  toml_ReadFile :: "string \<Rightarrow> error + string"
  time_Now_AddDate :: "string \<Rightarrow> 64 word \<Rightarrow> int"
  github_ListByOrg :: "string \<Rightarrow> string \<Rightarrow> nat \<Rightarrow> error + repo_ptr list"
  range_pats :: "string list"
  go_env :: "nat \<Rightarrow> scan_env"
  chan_order :: "nat list"
  json_output :: "GitleaksRepoResult list \<Rightarrow> string list \<Rightarrow> string"

section \<open>\<open>check_gitleaks_conf\<close>\<close>

text \<open>
  A call either comes back with a value or ends the process: zerolog's \<open>log.Fatal()\<close>
  calls \<open>os.Exit(1)\<close> when its message is written, so the \<open>return err\<close> after it is
  never reached.
\<close>

datatype 'a call = OsExit nat | Ret 'a

definition check_gitleaks_conf :: "world \<Rightarrow> string \<Rightarrow> event list \<times> error option call" where
  "check_gitleaks_conf w gitleaks_path =
     (case toml_ReadFile w gitleaks_path of
        Inl err \<Rightarrow>
          ([EvReadFile gitleaks_path,
            EvLog FatalLevel [(''error'', error_text err), (''path'', gitleaks_path)]
              ''failed to read gitleaks toml''],
           OsExit 1)
      | Inr _ \<Rightarrow> ([EvReadFile gitleaks_path], Ret None))"

section \<open>\<open>scan_repo\<close>\<close>

text \<open>\<open>strings.Replace(s, old, new, 1)\<close>: the first occurrence of \<open>old\<close> becomes \<open>new\<close>.\<close>

fun strings_Replace1 :: "string \<Rightarrow> string \<Rightarrow> string \<Rightarrow> string" where
  "strings_Replace1 [] old new = (if old = [] then new else [])"
| "strings_Replace1 (c # s) old new =
     (if prefix old (c # s) then new @ drop (length old) (c # s)
      else c # strings_Replace1 s old new)"

definition clone_args :: "string \<Rightarrow> string \<Rightarrow> string \<Rightarrow> string list" where
  "clone_args cloneUrl pat dir =
     (let cloneUrl = strings_Replace1 cloneUrl ''https://'' (''https://'' @ pat @ ''@'')
      in [''clone'', cloneUrl, dir])"

definition gitleaks_args :: "string \<Rightarrow> string \<Rightarrow> string list" where
  "gitleaks_args gl_conf_path dir =
     (let outputpath = dir @ ''/__gitleaks.json'';
          outputarg = ''-r='' @ outputpath;
          confpath = ''-c='' @ gl_conf_path
      in [''detect'', ''-v'', ''--no-git'', ''-f=json'', ''--exit-code=0'', outputarg, confpath, dir])"

text \<open>
  \<open>scan_repo\<close> returns nothing; what it does is the trace of its events, the sends on the
  results channel among them. The result is built from \<open>*repo.Name\<close>, \<open>*repo.URL\<close> and
  \<open>*repo.Private\<close>, and the clone reads \<open>*repo.CloneURL\<close>: each of them panics on
  \<open>nil\<close>, and nothing in \<open>scan_repo\<close> recovers, so the trace ends there.
\<close>

definition scan_repo ::
  "scan_env \<Rightarrow> repo_ptr \<Rightarrow> string \<Rightarrow> string \<Rightarrow> string \<Rightarrow> event list" where
  "scan_repo env repo pat orgname gl_conf_path =
     (case ptr_Name repo of None \<Rightarrow> [EvPanic] | Some name \<Rightarrow>
      case ptr_URL repo of None \<Rightarrow> [EvPanic] | Some url \<Rightarrow>
      case ptr_Private repo of None \<Rightarrow> [EvPanic] | Some private \<Rightarrow>
     (let result = \<lparr>Repository = name, URL = url,
                     IsPrivate = private, Org = orgname, Results = [], Err = None\<rparr>
      in EvMkdirTemp #
        (case os_MkdirTemp env of
           Inl err \<Rightarrow>
             [EvLog ErrorLevel [(''error'', error_text err), (''repo'', name)]
                ''failed to create temp dir to scan repo'',
              EvSend (result\<lparr>Err := Some err\<rparr>)]
         | Inr dir \<Rightarrow>
             EvLog DebugLevel [(''repo'', name), (''dir'', dir)] ''tempdir set'' #
             (case ptr_CloneURL repo of None \<Rightarrow> [EvPanic] | Some cloneUrl \<Rightarrow>
             EvExec ''git'' (clone_args cloneUrl pat dir) #
             (case cmd_Run env ''git'' (clone_args cloneUrl pat dir) of
                Some err \<Rightarrow>
                  [EvLog ErrorLevel [(''error'', error_text err), (''repo'', name)]
                     ''failed to clone repo'',
                   EvSend (result\<lparr>Err := Some err\<rparr>)]
              | None \<Rightarrow>
                  EvExec ''gitleaks'' (gitleaks_args gl_conf_path dir) #
                  (case cmd_Run env ''gitleaks'' (gitleaks_args gl_conf_path dir) of
                     Some err \<Rightarrow>
                       [EvLog ErrorLevel [(''error'', error_text err), (''repo'', name)]
                          ''error running gitleaks on the repo'',
                        EvSend (result\<lparr>Err := Some err\<rparr>)]
                   | None \<Rightarrow>
                       EvReadFile (dir @ ''/__gitleaks.json'') #
                       (case os_ReadFile env (dir @ ''/__gitleaks.json'') of
                          Inl err \<Rightarrow>
                            [EvLog ErrorLevel
                               [(''error'', error_text err), (''repo'', name)]
                               ''error opening results file'',
                             EvSend (result\<lparr>Err := Some err\<rparr>)]
                        | Inr resultfile \<Rightarrow>
                            (case json_Unmarshal env resultfile of
                               Inl err \<Rightarrow>
                                 [EvLog ErrorLevel
                                    [(''error'', error_text err), (''repo'', name)]
                                    ''error unmarshaling gitleaks results'',
                                  EvSend (result\<lparr>Err := Some err\<rparr>)]
                             | Inr jsonResults \<Rightarrow>
                                 [EvSend (result\<lparr>Results := jsonResults, Err := None\<rparr>)]))))))))"

text \<open>The values a trace sends on the results channel, in order.\<close>

fun sends :: "event list \<Rightarrow> GitleaksRepoResult list" where
  "sends [] = []"
| "sends (EvSend r # tr) = r # sends tr"
| "sends (_ # tr) = sends tr"

section \<open>\<open>get_org_repos\<close>\<close>

text \<open>
  The inner loop over one page: the list gathered so far, and whether the loop left at a
  repository pushed before \<open>time_ago\<close>. \<open>*repo.Archived\<close> and \<open>repo.PushedAt.Time\<close>
  panic on \<open>nil\<close>.
\<close>

fun scan_page ::
  "int \<Rightarrow> repo_ptr list \<Rightarrow> repo_ptr list \<Rightarrow> (repo_ptr list \<times> bool) may_panic" where
  "scan_page time_ago [] org_repos = Ok (org_repos, False)"
| "scan_page time_ago (repo # repos) org_repos =
     (case ptr_Archived repo of
        None \<Rightarrow> Panic
      | Some archived \<Rightarrow>
          if archived then scan_page time_ago repos org_repos
          else (case ptr_PushedAt repo of
                  None \<Rightarrow> Panic
                | Some pushed \<Rightarrow>
                    if pushed < time_ago then Ok (org_repos, True)
                    else scan_page time_ago repos (org_repos @ [repo])))"

text \<open>
  The outer loop, which has no bound of its own: \<open>None\<close> is the loop that never leaves.
  The page counter is a Go \<open>int\<close>; it is a natural number here, 2^63 pages being out of
  reach.
\<close>

partial_function (option) get_org_repos_loop ::
  "(nat \<Rightarrow> error + repo_ptr list) \<Rightarrow> string \<Rightarrow> string \<Rightarrow> int
     \<Rightarrow> repo_ptr list \<Rightarrow> nat \<Rightarrow> event list
     \<Rightarrow> ((error + repo_ptr list) may_panic \<times> event list) option" where
  "get_org_repos_loop api orgname pat time_ago org_repos page tr =
     (case api page of
        Inl err \<Rightarrow>
          Some (Ok (Inl err),
                tr @ [EvListByOrg orgname pat page,
                      EvLog ErrorLevel [(''error'', error_text err), (''org'', orgname)]
                        ''Error getting repositories from Github''])
      | Inr repos \<Rightarrow>
          (case scan_page time_ago repos org_repos of
             Panic \<Rightarrow> Some (Panic, tr @ [EvListByOrg orgname pat page, EvPanic])
           | Ok (org_repos', saw_older) \<Rightarrow>
               if saw_older
               then Some (Ok (Inr org_repos'), tr @ [EvListByOrg orgname pat page])
               else get_org_repos_loop api orgname pat time_ago org_repos' (page + 1)
                      (tr @ [EvListByOrg orgname pat page])))"

declare get_org_repos_loop.simps [code]

text \<open>
  The cutoff is \<open>time.Now().AddDate(0, 0, (-1 * daysago))\<close>, the product taken in Go's
  \<open>int\<close>.
\<close>

definition get_org_repos ::
  "world \<Rightarrow> string \<Rightarrow> string \<Rightarrow> 64 word
     \<Rightarrow> ((error + repo_ptr list) may_panic \<times> event list) option" where
  "get_org_repos w orgname pat daysago =
     (let time_ago = time_Now_AddDate w orgname (-1 * daysago)
      in get_org_repos_loop (github_ListByOrg w pat orgname) orgname pat time_ago [] 0 [])"

section \<open>\<open>main\<close>\<close>

text \<open>
  The start of \<open>main\<close>, up to the path of the gitleaks configuration: the events so
  far, the configuration loaded and the path.
\<close>

definition main_setup :: "world \<Rightarrow> event list \<times> Conf \<times> string" where
  "main_setup w =
     (let tr = [EvLog InfoLevel [] ''logging setup'', EvGetenv ''MOSS_DEBUG''] @
               (if os_Getenv w ''MOSS_DEBUG'' \<noteq> []
                then [EvLog DebugLevel [] ''loglevel debug''] else []);
          confdir = os_Getenv w ''MOSS_CONFDIR'';
          confdir = (if confdir = [] then ''./configs/conf.yml'' else confdir);
          conf = conf_getConfig w confdir;
          tr = tr @ [EvGetenv ''MOSS_CONFDIR'', EvGetConfig confdir, EvGetenv ''MOSS_GITLEAKSCONF''];
          gitleaks_toml_path = os_Getenv w ''MOSS_GITLEAKSCONF''
      in if gitleaks_toml_path = []
         then (tr @ [EvLog DebugLevel [] ''gitleaks toml path was empty, using default''],
               conf, ''./configs/gitleaks.toml'')
         else (tr, conf, gitleaks_toml_path))"

text \<open>The loop that fills the map \<open>pats\<close> from the environment.\<close>

fun main_pats_loop ::
  "world \<Rightarrow> string list \<Rightarrow> (string \<rightharpoonup> string) \<Rightarrow> event list
     \<Rightarrow> (string \<rightharpoonup> string) \<times> event list" where
  "main_pats_loop w [] pats tr = (pats, tr)"
| "main_pats_loop w (org # orgs) pats tr =
     (let patenv = ''PAT_'' @ org;
          pat = os_Getenv w patenv
      in if pat = []
         then main_pats_loop w orgs pats
                (tr @ [EvGetenv patenv,
                       EvLog ErrorLevel [(''org'', org)]
                         (''PAT for org doesn'' @ [CHR 0x27] @ ''t exist. Skipping it'')])
         else main_pats_loop w orgs (pats(org \<mapsto> pat)) (tr @ [EvGetenv patenv]))"

text \<open>
  The loop over the map \<open>pats\<close>, in the order \<open>range_pats\<close> the runtime picks. A discovery
  that never returns keeps the whole loop from returning, and one that panics ends it.
\<close>

fun main_discover_loop ::
  "world \<Rightarrow> Conf \<Rightarrow> (string \<rightharpoonup> string) \<Rightarrow> string list \<Rightarrow> repo_ptr list
     \<Rightarrow> event list \<Rightarrow> (repo_ptr list may_panic \<times> event list) option" where
  "main_discover_loop w conf pats [] all_repos tr = Some (Ok all_repos, tr)"
| "main_discover_loop w conf pats (org # orgs) all_repos tr =
     (case pats org of
        None \<Rightarrow> main_discover_loop w conf pats orgs all_repos tr
      | Some pat \<Rightarrow>
          (case get_org_repos w org pat (DaysToScan conf) of
             None \<Rightarrow> None
           | Some (Panic, tr') \<Rightarrow> Some (Panic, tr @ tr')
           | Some (Ok (Inl err), tr') \<Rightarrow>
               main_discover_loop w conf pats orgs all_repos
                 (tr @ tr' @ [EvLog ErrorLevel [(''error'', error_text err), (''org'', org)]
                                ''Failed to get repos from org. Continuing''])
           | Some (Ok (Inr repos), tr') \<Rightarrow>
               main_discover_loop w conf pats orgs (all_repos @ repos) (tr @ tr')))"

text \<open>\<open>strings.Split(s, sep)\<close> for a separator of one character.\<close>

fun strings_Split :: "string \<Rightarrow> char \<Rightarrow> string list" where
  "strings_Split [] sep = [[]]"
| "strings_Split (c # s) sep =
     (if c = sep then [] # strings_Split s sep
      else (case strings_Split s sep of
              [] \<Rightarrow> [[c]]
            | x # xs \<Rightarrow> (c # x) # xs))"

text \<open>
  The arguments of one \<open>go scan_repo(...)\<close>: the token and the organization name.
  A Go map yields the empty string for a key it does not hold.
\<close>

definition dispatch_args :: "(string \<rightharpoonup> string) \<Rightarrow> repo_ptr \<Rightarrow> string \<times> string" where
  "dispatch_args pats repo =
     (let reponame = GetFullName repo;
          orgname = hd (strings_Split reponame CHR ''/'');
          pat = (case pats orgname of None \<Rightarrow> [] | Some p \<Rightarrow> p)
      in (pat, orgname))"

text \<open>The goroutines started, each with the trace it runs through.\<close>

definition main_dispatch ::
  "world \<Rightarrow> (string \<rightharpoonup> string) \<Rightarrow> string \<Rightarrow> repo_ptr list \<Rightarrow> event list list" where
  "main_dispatch w pats gitleaks_toml_path all_repos =
     map (\<lambda>(i, repo).
            case dispatch_args pats repo of
              (pat, orgname) \<Rightarrow> scan_repo (go_env w i) repo pat orgname gitleaks_toml_path)
         (enumerate 0 all_repos)"

text \<open>
  What the results channel hands to \<open>main\<close>: the sends of the goroutines, in the order
  in which the goroutines get their turn.
\<close>

definition chan_values :: "nat list \<Rightarrow> event list list \<Rightarrow> GitleaksRepoResult list" where
  "chan_values order traces =
     concat (map (\<lambda>i. if i < length traces then sends (traces ! i) else []) order)"

text \<open>
  The collecting loop. It receives first and compares afterwards; a receive with no
  sender left never returns, which is \<open>None\<close>.
\<close>

fun main_collect_loop ::
  "GitleaksRepoResult list \<Rightarrow> nat \<Rightarrow> nat \<Rightarrow> GitleaksRepoResult list
     \<Rightarrow> GitleaksRepoResult list option" where
  "main_collect_loop [] n collected final_results = None"
| "main_collect_loop (repoResult # chan) n collected final_results =
     (let final_results = final_results @ [repoResult];
          collected = collected + 1
      in if collected \<ge> n then Some final_results
         else main_collect_loop chan n collected final_results)"

text \<open>A goroutine that panics: nothing recovers, and the process dies with it.\<close>

definition panics :: "event list \<Rightarrow> bool" where
  "panics tr = (EvPanic \<in> set tr)"

text \<open>
  How a run ends: the process exits with a status, it dies of a panic, \<open>main\<close> hangs in
  the collecting loop, or \<open>main\<close> returns with the results collected. A run is the trace
  of \<open>main\<close>, the traces of the goroutines and the ending; \<open>None\<close> is a run whose discovery
  never returns. A panicking goroutine sends nothing, so \<open>main\<close> cannot have all its
  results before the panic ends the process.
\<close>

datatype ending = Exited nat | Panicked | Blocked | Returned "GitleaksRepoResult list"

record run =
  main_trace :: "event list"
  goroutines :: "event list list"
  ending :: ending

definition main :: "world \<Rightarrow> run option" where
  "main w =
     (case main_setup w of
        (tr, conf, gitleaks_toml_path) \<Rightarrow>
          (case check_gitleaks_conf w gitleaks_toml_path of
             (tr1, OsExit n) \<Rightarrow>
               Some \<lparr>main_trace = tr @ tr1, goroutines = [], ending = Exited n\<rparr>
           | (tr1, Ret _) \<Rightarrow>
               (case main_pats_loop w (OrgsToScan conf) Map.empty (tr @ tr1) of
                  (pats, tr2) \<Rightarrow>
                    (case main_discover_loop w conf pats (range_pats w) [] tr2 of
                       None \<Rightarrow> None
                     | Some (Panic, tr3) \<Rightarrow>
                         Some \<lparr>main_trace = tr3, goroutines = [], ending = Panicked\<rparr>
                     | Some (Ok all_repos, tr3) \<Rightarrow>
                         (let traces = main_dispatch w pats gitleaks_toml_path all_repos
                          in if \<exists>t \<in> set traces. panics t
                             then Some \<lparr>main_trace = tr3, goroutines = traces,
                                        ending = Panicked\<rparr>
                             else
                             case main_collect_loop (chan_values (chan_order w) traces)
                                    (length all_repos) 0 [] of
                               None \<Rightarrow>
                                 Some \<lparr>main_trace = tr3, goroutines = traces, ending = Blocked\<rparr>
                             | Some final_results \<Rightarrow>
                                 Some \<lparr>main_trace = tr3 @
                                         (if Format conf = ''json''
                                          then (let output = json_output w final_results
                                                               (OrgsToScan conf)
                                                in [EvWriteFile ''./output.json'' output,
                                                    EvPrintln output])
                                          else []),
                                       goroutines = traces,
                                       ending = Returned final_results\<rparr>)))))"

section \<open>Observations on traces and sample worlds\<close>

text \<open>
  The steps of a trace that reach beyond the process: the workspace made, the commands
  run and the files read.
\<close>

fun is_step :: "event \<Rightarrow> bool" where
  "is_step EvMkdirTemp = True"
| "is_step (EvExec _ _) = True"
| "is_step (EvReadFile _) = True"
| "is_step _ = False"

fun is_log :: "event \<Rightarrow> bool" where
  "is_log (EvLog _ _ _) = True"
| "is_log _ = False"

text \<open>The one event that carries the token: the command line of \<open>git clone\<close>.\<close>

fun is_git :: "event \<Rightarrow> bool" where
  "is_git (EvExec bin _) = (bin = ''git'')"
| "is_git _ = False"

text \<open>A call of the hosting API or a subprocess.\<close>

fun is_network_or_subprocess :: "event \<Rightarrow> bool" where
  "is_network_or_subprocess (EvListByOrg _ _ _) = True"
| "is_network_or_subprocess (EvExec _ _) = True"
| "is_network_or_subprocess _ = False"

text \<open>
  How the loop over a page meets a repository. It passes an \<open>archived\<close> one by, it stops
  at a \<open>stale\<close> one (not archived and pushed before \<open>time_ago\<close>) and it keeps a
  \<open>recent\<close> one (not archived and not pushed before \<open>time_ago\<close>); \<open>passes\<close> is the
  repository that lets the loop go on. Whatever is none of these has a \<open>nil\<close> where the
  loop reads.
\<close>

definition archived :: "repo_ptr \<Rightarrow> bool" where
  "archived repo = (ptr_Archived repo = Some True)"

definition not_archived :: "repo_ptr \<Rightarrow> bool" where
  "not_archived repo = (\<not> archived repo)"


definition recent :: "int \<Rightarrow> repo_ptr \<Rightarrow> bool" where
  "recent time_ago repo =
     (ptr_Archived repo = Some False \<and>
      (case ptr_PushedAt repo of None \<Rightarrow> False | Some pushed \<Rightarrow> \<not> pushed < time_ago))"

definition passes :: "int \<Rightarrow> repo_ptr \<Rightarrow> bool" where
  "passes time_ago repo = (archived repo \<or> recent time_ago repo)"

text \<open>
  A repository with all that \<open>scan_repo\<close> reads through a pointer in its place.
\<close>

definition filled :: "repo_ptr \<Rightarrow> bool" where
  "filled repo =
     (ptr_Name repo \<noteq> None \<and> ptr_URL repo \<noteq> None \<and> ptr_Private repo \<noteq> None \<and>
      ptr_CloneURL repo \<noteq> None)"

text \<open>
  Sample repositories of an organization \<open>acme\<close>, for a clock that reads 1200000 and a
  window of 7 days of 86400 seconds, hence a cutoff of 595200.
\<close>

definition repo_fresh :: repo_ptr where
  "repo_fresh = Some \<lparr>repo_Name = Some ''web'', repo_FullName = Some ''acme/web'',
     repo_URL = Some ''https://api.github.com/repos/acme/web'',
     repo_CloneURL = Some ''https://github.com/acme/web.git'',
     repo_Private = Some True, repo_Archived = Some False, repo_PushedAt = Some 1000000\<rparr>"

definition repo_stale :: repo_ptr where
  "repo_stale = Some \<lparr>repo_Name = Some ''old'', repo_FullName = Some ''acme/old'',
     repo_URL = Some ''https://api.github.com/repos/acme/old'',
     repo_CloneURL = Some ''https://github.com/acme/old.git'',
     repo_Private = Some False, repo_Archived = Some False, repo_PushedAt = Some 1000\<rparr>"

definition repo_attic :: repo_ptr where
  "repo_attic = Some \<lparr>repo_Name = Some ''attic'', repo_FullName = Some ''acme/attic'',
     repo_URL = Some ''https://api.github.com/repos/acme/attic'',
     repo_CloneURL = Some ''https://github.com/acme/attic.git'',
     repo_Private = Some False, repo_Archived = Some True, repo_PushedAt = Some 2000\<rparr>"

text \<open>
  A repository whose full name spells the organization otherwise than the configuration
  does.
\<close>

definition repo_cased :: repo_ptr where
  "repo_cased = Some \<lparr>repo_Name = Some ''api'', repo_FullName = Some ''Acme/api'',
     repo_URL = Some ''https://api.github.com/repos/Acme/api'',
     repo_CloneURL = Some ''https://github.com/Acme/api.git'',
     repo_Private = Some True, repo_Archived = Some False, repo_PushedAt = Some 1100000\<rparr>"

text \<open>A repository descriptor that has no clone URL.\<close>

definition repo_no_clone_url :: repo_ptr where
  "repo_no_clone_url = Some \<lparr>repo_Name = Some ''bare'', repo_FullName = Some ''acme/bare'',
     repo_URL = Some ''https://api.github.com/repos/acme/bare'',
     repo_CloneURL = None,
     repo_Private = Some True, repo_Archived = Some False, repo_PushedAt = Some 1150000\<rparr>"

text \<open>A goroutine for which every step succeeds and gitleaks reports nothing.\<close>

definition env_ok :: scan_env where
  "env_ok = \<lparr>os_MkdirTemp = Inr ''/tmp/moss_1'', cmd_Run = (\<lambda>bin args. None),
     os_ReadFile = (\<lambda>path. Inr ''[]''), json_Unmarshal = (\<lambda>bytes. Inr [])\<rparr>"

text \<open>A goroutine whose \<open>git clone\<close> fails.\<close>

definition env_clone_fails :: scan_env where
  "env_clone_fails = \<lparr>os_MkdirTemp = Inr ''/tmp/moss_2'',
     cmd_Run = (\<lambda>bin args. if bin = ''git'' then Some (Error ''exit status 128'') else None),
     os_ReadFile = (\<lambda>path. Inr ''[]''), json_Unmarshal = (\<lambda>bytes. Inr [])\<rparr>"

text \<open>
  A world with the configured organizations \<open>orgs\<close>, a token for \<open>acme\<close> only, and the
  hosting API \<open>api\<close>.
\<close>

definition sample_world ::
  "string list \<Rightarrow> (nat \<Rightarrow> error + repo_ptr list) \<Rightarrow> world" where
  "sample_world orgs api =
     \<lparr>os_Getenv = (\<lambda>k. if k = ''PAT_acme'' then ''tok'' else []),
      conf_getConfig = (\<lambda>path. \<lparr>OrgsToScan = orgs, DaysToScan = 7, Format = ''json''\<rparr>),
      toml_ReadFile = (\<lambda>path. Inr ''title = 0''),
      time_Now_AddDate = (\<lambda>org d. 1200000 + 86400 * sint d),
      github_ListByOrg = (\<lambda>pat org. api),
      range_pats = [''acme''],
      go_env = (\<lambda>i. if i = 0 then env_clone_fails else env_ok),
      chan_order = [1, 0],
      json_output = (\<lambda>final_results orgs. ''{}'')\<rparr>"

text \<open>
  A hosting API with the archived repositories taken out of every page.
\<close>

definition drop_archived ::
  "(nat \<Rightarrow> error + repo_ptr list) \<Rightarrow> nat \<Rightarrow> error + repo_ptr list" where
  "drop_archived api page = map_sum id (filter not_archived) (api page)"

text \<open>
  Sample answers of the hosting API. \<open>api_sample\<close> has a full first page and the first
  stale repository in the middle of the second; \<open>api_one_page\<close> has all on its first
  page; \<open>api_first_page_twice\<close> answers page 0 as it
  answers page 1, as a server that counts its pages from 1 does; \<open>api_all_recent\<close>
  is an organization with one repository, pushed within the window, and empty pages
  after the last.
\<close>

definition api_sample :: "nat \<Rightarrow> error + repo_ptr list" where
  "api_sample page =
     (if page = 0 then Inr [repo_attic, repo_fresh]
      else if page = 1 then Inr [repo_cased, repo_stale, repo_fresh]
      else Inr [])"

definition api_one_page :: "nat \<Rightarrow> error + repo_ptr list" where
  "api_one_page page = Inr [repo_fresh, repo_cased, repo_stale]"

definition api_first_page_twice :: "nat \<Rightarrow> error + repo_ptr list" where
  "api_first_page_twice page = (if page \<le> 1 then Inr [repo_fresh] else Inr [repo_stale])"

definition api_all_recent :: "nat \<Rightarrow> error + repo_ptr list" where
  "api_all_recent page = (if page \<le> 1 then Inr [repo_fresh] else Inr [])"

text \<open>A world in which the gitleaks configuration is not there.\<close>

definition world_no_toml :: world where
  "world_no_toml = (sample_world [''acme''] (\<lambda>page. Inr [repo_fresh, repo_stale]))
     \<lparr>toml_ReadFile := (\<lambda>path. Inl (Error ''open ./configs/gitleaks.toml: no such file or directory''))\<rparr>"

section \<open>Lemmas on the loops\<close>

lemma sends_scan_repo_length:
  "filled repo \<Longrightarrow> length (sends (scan_repo env repo pat orgname gl)) = 1"
  by (auto simp: scan_repo_def filled_def Let_def split: sum.split option.split)

lemma panics_scan_repo: "filled repo \<Longrightarrow> \<not> panics (scan_repo env repo pat orgname gl)"
  by (auto simp: scan_repo_def filled_def panics_def Let_def split: sum.split option.split)

lemma strings_Split_not_Nil: "strings_Split s sep \<noteq> []"
  by (induction s) (simp_all split: list.split)

lemma hd_strings_Split: "hd (strings_Split s sep) = takeWhile (\<lambda>c. c \<noteq> sep) s"
  by (induction s) (auto simp: strings_Split_not_Nil split: list.split)

lemma main_pats_loop_lookup:
  "fst (main_pats_loop w orgs pats tr) org =
     (if org \<in> set orgs \<and> os_Getenv w (''PAT_'' @ org) \<noteq> []
      then Some (os_Getenv w (''PAT_'' @ org)) else pats org)"
  by (induction orgs arbitrary: pats tr) (auto simp: Let_def)

lemma main_collect_loop_eq:
  "main_collect_loop chan n collected final_results =
     (if length chan < max 1 (n - collected) then None
      else Some (final_results @ take (max 1 (n - collected)) chan))"
proof (induction chan arbitrary: collected final_results)
  case Nil
  then show ?case by simp
next
  case (Cons r chan)
  show ?case
  proof (cases "collected + 1 \<ge> n")
    case True
    then have "max 1 (n - collected) = 1"
      by arith
    with True show ?thesis by (simp add: Let_def)
  next
    case False
    then have "max 1 (n - collected) = Suc (max 1 (n - (collected + 1)))"
      by arith
    with False Cons.IH [of "collected + 1" "final_results @ [r]"] show ?thesis
      by (simp add: Let_def)
  qed
qed

lemma scan_page_passes:
  "\<forall>r \<in> set repos. passes t r \<Longrightarrow>
   scan_page t repos acc = Ok (acc @ filter not_archived repos, False)"
  by (induction repos arbitrary: acc)
     (auto simp: passes_def archived_def recent_def not_archived_def split: option.splits)


lemma scan_page_keeps:
  assumes "scan_page t repos acc = Ok (acc', b)"
    and "\<forall>r \<in> set acc. ptr_Archived r = Some False"
  shows "\<forall>r \<in> set acc'. ptr_Archived r = Some False"
  using assms
proof (induction repos arbitrary: acc)
  case Nil
  then show ?case by simp
next
  case (Cons repo repos)
  show ?case
  proof (cases "ptr_Archived repo")
    case None
    with Cons.prems(1) show ?thesis by simp
  next
    case (Some a)
    show ?thesis
    proof (cases a)
      case True
      with Some Cons.prems(1) have "scan_page t repos acc = Ok (acc', b)" by simp
      from Cons.IH [OF this Cons.prems(2)] show ?thesis .
    next
      case False
      show ?thesis
      proof (cases "ptr_PushedAt repo")
        case None
        with Some False Cons.prems(1) show ?thesis by simp
      next
        case pushed: (Some p)
        show ?thesis
        proof (cases "p < t")
          case True
          with Some False pushed Cons.prems(1) have "acc' = acc" by simp
          with Cons.prems(2) show ?thesis by blast
        next
          case notless: False
          with Some False pushed Cons.prems(1)
          have run: "scan_page t repos (acc @ [repo]) = Ok (acc', b)" by simp
          have here: "ptr_Archived repo = Some False"
            using Some False by simp
          have "\<forall>r \<in> set (acc @ [repo]). ptr_Archived r = Some False"
            using Cons.prems(2) here by simp
          from Cons.IH [OF run this] show ?thesis .
        qed
      qed
    qed
  qed
qed

lemma scan_page_drop_archived:
  "scan_page t (filter not_archived repos) acc = scan_page t repos acc"
  by (induction repos arbitrary: acc)
     (auto simp: not_archived_def archived_def split: option.splits)

section \<open>Lemmas on discovery\<close>

lemma get_org_repos_loop_never_returns:
  assumes "\<forall>q \<ge> page. \<exists>rs. api q = Inr rs \<and> (\<forall>r \<in> set rs. passes t r)"
  shows "get_org_repos_loop api org pat t acc page tr = None"
proof (cases "get_org_repos_loop api org pat t acc page tr")
  case None
  then show ?thesis .
next
  case (Some y)
  then have "\<not> (\<forall>q \<ge> page. \<exists>rs. api q = Inr rs \<and> (\<forall>r \<in> set rs. passes t r))"
  proof (induction api org pat t acc page tr y rule: get_org_repos_loop.raw_induct [rotated, consumes 1])
    case (1 f api org pat t acc page tr y)
    show ?case
    proof
      assume a: "\<forall>q \<ge> page. \<exists>rs. api q = Inr rs \<and> (\<forall>r \<in> set rs. passes t r)"
      then obtain rs where rs: "api page = Inr rs" "\<forall>r \<in> set rs. passes t r"
        by auto
      from a have a': "\<forall>q \<ge> page + 1. \<exists>rs. api q = Inr rs \<and> (\<forall>r \<in> set rs. passes t r)"
        by simp
      from rs 1(2) have "f api org pat t (acc @ filter not_archived rs)
                        (page + 1) (tr @ [EvListByOrg org pat page]) = Some y"
        by (simp add: scan_page_passes)
      from 1(1) [OF this] a' show False
        by simp
    qed
  qed
  with assms show ?thesis
    by contradiction
qed


lemma get_org_repos_loop_not_archived:
  assumes "get_org_repos_loop api org pat t acc page tr = Some y"
  shows "(\<forall>r \<in> set acc. ptr_Archived r = Some False) \<longrightarrow>
         (\<forall>repos. fst y = Ok (Inr repos) \<longrightarrow> (\<forall>r \<in> set repos. ptr_Archived r = Some False))"
  using assms
proof (induction api org pat t acc page tr y rule: get_org_repos_loop.raw_induct [rotated, consumes 1])
  case (1 f api org pat t acc page tr y)
  show ?case
  proof (cases "api page")
    case (Inl err)
    with 1(2) have "fst y = Ok (Inl err)"
      by auto
    then show ?thesis by simp
  next
    case (Inr rs)
    show ?thesis
    proof (cases "scan_page t rs acc")
      case Panic
      with Inr 1(2) have "fst y = Panic"
        by auto
      then show ?thesis by simp
    next
      case (Ok res)
      obtain acc' b where res: "res = (acc', b)"
        by (cases res)
      from Ok res have sp: "scan_page t rs acc = Ok (acc', b)"
        by simp
      have acc': "(\<forall>r \<in> set acc. ptr_Archived r = Some False) \<longrightarrow>
                  (\<forall>r \<in> set acc'. ptr_Archived r = Some False)"
        using scan_page_keeps [OF sp] by blast
      show ?thesis
      proof (cases b)
        case True
        with Inr sp 1(2) have "fst y = Ok (Inr acc')"
          by auto
        with acc' show ?thesis by auto
      next
        case False
        with Inr sp 1(2) have "f api org pat t acc' (page + 1) (tr @ [EvListByOrg org pat page]) = Some y"
          by simp
        from 1(1) [OF this] acc' show ?thesis
          by blast
      qed
    qed
  qed
qed

lemma get_org_repos_loop_drop_archived_1:
  assumes "get_org_repos_loop api org pat t acc page tr = Some y"
  shows "get_org_repos_loop (drop_archived api) org pat t acc page tr = Some y"
  using assms
proof (induction api org pat t acc page tr y rule: get_org_repos_loop.raw_induct [rotated, consumes 1])
  case (1 f api org pat t acc page tr y)
  show ?case
  proof (cases "api page")
    case (Inl err)
    then have dp: "drop_archived api page = Inl err"
      by (simp add: drop_archived_def)
    from 1(2) Inl show ?thesis
      by (subst get_org_repos_loop.simps) (simp add: dp)
  next
    case (Inr rs)
    then have dp: "drop_archived api page = Inr (filter not_archived rs)"
      by (simp add: drop_archived_def)
    show ?thesis
    proof (cases "scan_page t rs acc")
      case Panic
      with Inr 1(2) show ?thesis
        by (subst get_org_repos_loop.simps) (simp add: dp scan_page_drop_archived)
    next
      case (Ok res)
      obtain acc' b where res: "res = (acc', b)"
        by (cases res)
      show ?thesis
      proof (cases b)
        case True
        with Inr Ok res 1(2) show ?thesis
          by (subst get_org_repos_loop.simps) (simp add: dp scan_page_drop_archived)
      next
        case False
        with Inr Ok res 1(2)
        have "f api org pat t acc' (page + 1) (tr @ [EvListByOrg org pat page]) = Some y"
          by simp
        from 1(1) [OF this] Ok res False show ?thesis
          by (subst get_org_repos_loop.simps) (simp add: dp scan_page_drop_archived)
      qed
    qed
  qed
qed

lemma get_org_repos_loop_drop_archived_2:
  assumes "get_org_repos_loop api' org pat t acc page tr = Some y"
  shows "\<forall>api. api' = drop_archived api \<longrightarrow> get_org_repos_loop api org pat t acc page tr = Some y"
  using assms
proof (induction api' org pat t acc page tr y rule: get_org_repos_loop.raw_induct [rotated, consumes 1])
  case (1 f api' org pat t acc page tr y)
  show ?case
  proof (intro allI impI)
    fix api
    assume eq: "api' = drop_archived api"
    show "get_org_repos_loop api org pat t acc page tr = Some y"
    proof (cases "api page")
      case (Inl err)
      then have "api' page = Inl err"
        by (simp add: eq drop_archived_def)
      with 1(2) Inl show ?thesis
        by (subst get_org_repos_loop.simps) simp
    next
      case (Inr rs)
      then have a': "api' page = Inr (filter not_archived rs)"
        by (simp add: eq drop_archived_def)
      show ?thesis
      proof (cases "scan_page t rs acc")
        case Panic
        with a' 1(2) Inr show ?thesis
          by (subst get_org_repos_loop.simps) (simp add: scan_page_drop_archived)
      next
        case (Ok res)
        obtain acc' b where res: "res = (acc', b)"
          by (cases res)
        show ?thesis
        proof (cases b)
          case True
          with a' Inr Ok res 1(2) show ?thesis
            by (subst get_org_repos_loop.simps) (simp add: scan_page_drop_archived)
        next
          case False
          with a' Ok res 1(2)
          have "f api' org pat t acc' (page + 1) (tr @ [EvListByOrg org pat page]) = Some y"
            by (simp add: scan_page_drop_archived)
          from 1(1) [OF this] eq have "get_org_repos_loop api org pat t acc' (page + 1)
                                          (tr @ [EvListByOrg org pat page]) = Some y"
            by blast
          with Inr Ok res False show ?thesis
            by (subst get_org_repos_loop.simps) simp
        qed
      qed
    qed
  qed
qed

lemma get_org_repos_loop_drop_archived:
  "get_org_repos_loop (drop_archived api) org pat t acc page tr =
   get_org_repos_loop api org pat t acc page tr"
proof (cases "get_org_repos_loop api org pat t acc page tr")
  case (Some y)
  from get_org_repos_loop_drop_archived_1 [OF this] Some show ?thesis
    by simp
next
  case None
  show ?thesis
  proof (cases "get_org_repos_loop (drop_archived api) org pat t acc page tr")
    case None': None
    with None show ?thesis by simp
  next
    case (Some y)
    from get_org_repos_loop_drop_archived_2 [OF this] None show ?thesis
      by simp
  qed
qed

text \<open>Every repository that the loop over the organizations adds was listed for some
  organization of the loop, with the token the map holds for it.\<close>

lemma main_discover_loop_found:
  assumes "main_discover_loop w conf pats orgs acc tr = Some (Ok all_repos, tr')"
  shows "\<forall>repo \<in> set all_repos. repo \<in> set acc \<or>
           (\<exists>org \<in> set orgs. \<exists>tok repos t. pats org = Some tok \<and>
              get_org_repos w org tok (DaysToScan conf) = Some (Ok (Inr repos), t) \<and>
              repo \<in> set repos)"
  using assms
proof (induction orgs arbitrary: acc tr)
  case Nil
  then show ?case by simp
next
  case (Cons org orgs)
  show ?case
  proof (cases "pats org")
    case None
    with Cons.prems have "main_discover_loop w conf pats orgs acc tr = Some (Ok all_repos, tr')"
      by simp
    from Cons.IH [OF this] show ?thesis
      by auto
  next
    case (Some tok)
    show ?thesis
    proof (cases "get_org_repos w org tok (DaysToScan conf)")
      case None
      with Some Cons.prems show ?thesis by simp
    next
      case found: (Some res)
      obtain r t where res: "res = (r, t)"
        by (cases res)
      show ?thesis
      proof (cases r)
        case Panic
        with Some found res Cons.prems show ?thesis by simp
      next
        case (Ok listed)
        show ?thesis
        proof (cases listed)
          case (Inl err)
          with Some found res Ok Cons.prems
          have "main_discover_loop w conf pats orgs acc
                  (tr @ t @ [EvLog ErrorLevel [(''error'', error_text err), (''org'', org)]
                               ''Failed to get repos from org. Continuing'']) =
                Some (Ok all_repos, tr')"
            by simp
          from Cons.IH [OF this] show ?thesis
            by auto
        next
          case (Inr repos)
          with Some found res Ok Cons.prems
          have "main_discover_loop w conf pats orgs (acc @ repos) (tr @ t) = Some (Ok all_repos, tr')"
            by simp
          from Cons.IH [OF this]
          have ih: "\<forall>repo \<in> set all_repos. repo \<in> set (acc @ repos) \<or>
             (\<exists>org \<in> set orgs. \<exists>tok repos t. pats org = Some tok \<and>
                get_org_repos w org tok (DaysToScan conf) = Some (Ok (Inr repos), t) \<and>
                repo \<in> set repos)" .
          have here: "pats org = Some tok \<and>
              get_org_repos w org tok (DaysToScan conf) = Some (Ok (Inr repos), t)"
            using Some found res Ok Inr by simp
          show ?thesis
          proof
            fix repo
            assume "repo \<in> set all_repos"
            with ih have "repo \<in> set (acc @ repos) \<or>
             (\<exists>org \<in> set orgs. \<exists>tok repos t. pats org = Some tok \<and>
                get_org_repos w org tok (DaysToScan conf) = Some (Ok (Inr repos), t) \<and>
                repo \<in> set repos)"
              by blast
            then consider "repo \<in> set acc" | "repo \<in> set repos"
              | "\<exists>org \<in> set orgs. \<exists>tok repos t. pats org = Some tok \<and>
                get_org_repos w org tok (DaysToScan conf) = Some (Ok (Inr repos), t) \<and>
                repo \<in> set repos"
              by auto
            then show "repo \<in> set acc \<or>
               (\<exists>org \<in> set (org # orgs). \<exists>tok repos t. pats org = Some tok \<and>
                  get_org_repos w org tok (DaysToScan conf) = Some (Ok (Inr repos), t) \<and>
                  repo \<in> set repos)"
            proof cases
              case 1
              then show ?thesis by blast
            next
              case 2
              with here show ?thesis by auto
            next
              case 3
              then show ?thesis by auto
            qed
          qed
        qed
      qed
    qed
  qed
qed

section \<open>Lemmas on the goroutines\<close>

text \<open>
  A descriptor with its name, URL, visibility and clone URL in place: \<open>scan_repo\<close>
  sends exactly one result, which names the repository; a step that fails puts its error
  into the result and no later step is taken; when every step succeeds the result has no
  error and carries the findings that were parsed.
\<close>

lemma scan_repo_filled:
  assumes "ptr_Name repo = Some name" and "ptr_URL repo = Some url"
    and "ptr_Private repo = Some private" and "ptr_CloneURL repo = Some cloneUrl"
  shows "\<exists>r. sends (scan_repo env repo pat orgname gl) = [r] \<and>
     Repository r = name \<and> URL r = url \<and> IsPrivate r = private \<and> Org r = orgname \<and>
     (\<forall>e. os_MkdirTemp env = Inl e \<longrightarrow>
        Err r = Some e \<and> Results r = [] \<and>
        filter is_step (scan_repo env repo pat orgname gl) = [EvMkdirTemp]) \<and>
     (\<forall>dir e. os_MkdirTemp env = Inr dir \<and>
        cmd_Run env ''git'' (clone_args cloneUrl pat dir) = Some e \<longrightarrow>
        Err r = Some e \<and> Results r = [] \<and>
        filter is_step (scan_repo env repo pat orgname gl) =
          [EvMkdirTemp, EvExec ''git'' (clone_args cloneUrl pat dir)]) \<and>
     (\<forall>dir e. os_MkdirTemp env = Inr dir \<and>
        cmd_Run env ''git'' (clone_args cloneUrl pat dir) = None \<and>
        cmd_Run env ''gitleaks'' (gitleaks_args gl dir) = Some e \<longrightarrow>
        Err r = Some e \<and> Results r = [] \<and>
        filter is_step (scan_repo env repo pat orgname gl) =
          [EvMkdirTemp, EvExec ''git'' (clone_args cloneUrl pat dir),
           EvExec ''gitleaks'' (gitleaks_args gl dir)]) \<and>
     (\<forall>dir e. os_MkdirTemp env = Inr dir \<and>
        cmd_Run env ''git'' (clone_args cloneUrl pat dir) = None \<and>
        cmd_Run env ''gitleaks'' (gitleaks_args gl dir) = None \<and>
        os_ReadFile env (dir @ ''/__gitleaks.json'') = Inl e \<longrightarrow>
        Err r = Some e \<and> Results r = [] \<and>
        filter is_step (scan_repo env repo pat orgname gl) =
          [EvMkdirTemp, EvExec ''git'' (clone_args cloneUrl pat dir),
           EvExec ''gitleaks'' (gitleaks_args gl dir), EvReadFile (dir @ ''/__gitleaks.json'')]) \<and>
     (\<forall>dir resultfile e. os_MkdirTemp env = Inr dir \<and>
        cmd_Run env ''git'' (clone_args cloneUrl pat dir) = None \<and>
        cmd_Run env ''gitleaks'' (gitleaks_args gl dir) = None \<and>
        os_ReadFile env (dir @ ''/__gitleaks.json'') = Inr resultfile \<and>
        json_Unmarshal env resultfile = Inl e \<longrightarrow>
        Err r = Some e \<and> Results r = []) \<and>
     (\<forall>dir resultfile jsonResults. os_MkdirTemp env = Inr dir \<and>
        cmd_Run env ''git'' (clone_args cloneUrl pat dir) = None \<and>
        cmd_Run env ''gitleaks'' (gitleaks_args gl dir) = None \<and>
        os_ReadFile env (dir @ ''/__gitleaks.json'') = Inr resultfile \<and>
        json_Unmarshal env resultfile = Inr jsonResults \<longrightarrow>
        Err r = None \<and> Results r = jsonResults)"
  by (simp add: scan_repo_def assms Let_def split: sum.split option.split)

lemma scan_repo_sends:
  assumes "filled repo" and "ptr_CloneURL repo = Some cloneUrl"
  shows "\<exists>r. sends (scan_repo env repo pat orgname gl) = [r] \<and>
     (\<forall>dir e. os_MkdirTemp env = Inr dir \<and>
        cmd_Run env ''git'' (clone_args cloneUrl pat dir) = Some e \<longrightarrow>
        Err r = Some e \<and> Results r = [])"
proof -
  from assms(1) obtain name url priv where
    f: "ptr_Name repo = Some name" "ptr_URL repo = Some url" "ptr_Private repo = Some priv"
    by (auto simp: filled_def)
  show ?thesis
    by (simp add: scan_repo_def f assms(2) Let_def split: sum.split option.split)
qed

lemma main_dispatch_nth:
  "i < length all_repos \<Longrightarrow>
   main_dispatch w pats gl all_repos ! i =
     scan_repo (go_env w i) (all_repos ! i) (fst (dispatch_args pats (all_repos ! i)))
       (snd (dispatch_args pats (all_repos ! i))) gl"
  by (simp add: main_dispatch_def nth_enumerate_eq split: prod.split)

lemma length_main_dispatch: "length (main_dispatch w pats gl all_repos) = length all_repos"
  by (simp add: main_dispatch_def)

lemma sends_main_dispatch_length:
  "i < length all_repos \<Longrightarrow> filled (all_repos ! i) \<Longrightarrow>
   length (sends (main_dispatch w pats gl all_repos ! i)) = 1"
  by (simp add: main_dispatch_nth sends_scan_repo_length)

lemma length_concat_singletons:
  "\<forall>x \<in> set xs. length (f x) = 1 \<Longrightarrow> length (concat (map f xs)) = length xs"
  by (induction xs) simp_all

lemma chan_values_complete:
  assumes "mset order = mset [0..<length all_repos]"
    and "\<forall>repo \<in> set all_repos. filled repo"
  shows "length (chan_values order (main_dispatch w pats gl all_repos)) = length all_repos"
    and "set (chan_values order (main_dispatch w pats gl all_repos)) =
           (\<Union>j \<in> {0..<length all_repos}. set (sends (main_dispatch w pats gl all_repos ! j)))"
proof -
  from assms(1) have so: "set order = {0..<length all_repos}"
    by (metis mset_eq_setD set_upt)
  from assms(1) have lo: "length order = length all_repos"
    by (metis mset_eq_length length_upt diff_zero)
  have "\<forall>i \<in> set order.
          length (if i < length (main_dispatch w pats gl all_repos)
                  then sends (main_dispatch w pats gl all_repos ! i) else []) = 1"
    using so assms(2) by (simp add: length_main_dispatch sends_main_dispatch_length)
  then show "length (chan_values order (main_dispatch w pats gl all_repos)) = length all_repos"
    unfolding chan_values_def using lo by (simp only: length_concat_singletons)
  show "set (chan_values order (main_dispatch w pats gl all_repos)) =
           (\<Union>j \<in> {0..<length all_repos}. set (sends (main_dispatch w pats gl all_repos ! j)))"
    unfolding chan_values_def using so by (auto simp: length_main_dispatch)
qed

section \<open>Scans side by side\<close>

text \<open>
  Claim C8: when the clone of a dispatched repository fails (its workspace was made,
  \<open>git clone\<close> came back with an error), the one result of that goroutine has this
  error and no findings; and with every goroutine getting its turn on the channel, the
  collecting loop still returns, with as many results as repositories, the result of
  every other goroutine among them. The descriptors dispatched are taken with their
  fields in place, a goroutine that panics being the end of the whole process.
\<close>

theorem clone_failure_is_isolated:
  assumes i: "i < length all_repos"
    and filled: "\<forall>repo \<in> set all_repos. filled repo"
    and url: "ptr_CloneURL (all_repos ! i) = Some cloneUrl"
    and mk: "os_MkdirTemp (go_env w i) = Inr dir"
    and cl: "cmd_Run (go_env w i) ''git''
               (clone_args cloneUrl (fst (dispatch_args pats (all_repos ! i))) dir) = Some err"
    and order: "mset (chan_order w) = mset [0..<length all_repos]"
  shows "\<exists>r final_results.
           sends (main_dispatch w pats gl all_repos ! i) = [r] \<and>
           Err r = Some err \<and> Results r = [] \<and>
           main_collect_loop (chan_values (chan_order w) (main_dispatch w pats gl all_repos))
             (length all_repos) 0 [] = Some final_results \<and>
           length final_results = length all_repos \<and>
           (\<forall>j < length all_repos.
              set (sends (main_dispatch w pats gl all_repos ! j)) \<subseteq> set final_results)"
proof -
  let ?chan = "chan_values (chan_order w) (main_dispatch w pats gl all_repos)"
  have fi: "filled (all_repos ! i)"
    using i filled by simp
  from scan_repo_sends [OF fi url, of "go_env w i" "fst (dispatch_args pats (all_repos ! i))"
      "snd (dispatch_args pats (all_repos ! i))" gl]
  obtain r where r: "sends (main_dispatch w pats gl all_repos ! i) = [r]"
      "Err r = Some err" "Results r = []"
    using i mk cl by (auto simp: main_dispatch_nth)
  have len: "length ?chan = length all_repos"
    using order filled by (rule chan_values_complete(1))
  have "max 1 (length all_repos - 0) = length all_repos" using i by arith
  with len have "main_collect_loop ?chan (length all_repos) 0 [] = Some ?chan"
    by (simp only: main_collect_loop_eq) simp
  moreover have "\<forall>j < length all_repos.
      set (sends (main_dispatch w pats gl all_repos ! j)) \<subseteq> set ?chan"
    using chan_values_complete(2) [OF order filled] by auto
  ultimately show ?thesis using r len by blast
qed

theorem clone_failure_is_isolated_witness:
  "(1::nat) < length [repo_fresh, repo_stale] \<and>
   mset (chan_order (sample_world [''acme''] (\<lambda>page. Inr []))) = mset [0..<length [repo_fresh, repo_stale]] \<and>
   (\<exists>r final_results.
      sends (main_dispatch (sample_world [''acme''] (\<lambda>page. Inr [])) [''acme'' \<mapsto> ''tok''] ''gitleaks.toml''
               [repo_fresh, repo_stale] ! 0) = [r] \<and>
      Err r = Some (Error ''exit status 128'') \<and> Results r = [] \<and>
      main_collect_loop
        (chan_values (chan_order (sample_world [''acme''] (\<lambda>page. Inr [])))
           (main_dispatch (sample_world [''acme''] (\<lambda>page. Inr [])) [''acme'' \<mapsto> ''tok''] ''gitleaks.toml''
              [repo_fresh, repo_stale]))
        (length [repo_fresh, repo_stale]) 0 [] = Some final_results \<and>
      length final_results = 2 \<and>
      set (sends (main_dispatch (sample_world [''acme''] (\<lambda>page. Inr [])) [''acme'' \<mapsto> ''tok''] ''gitleaks.toml''
                    [repo_fresh, repo_stale] ! 1)) \<subseteq> set final_results)"
proof -
  let ?w = "sample_world [''acme''] (\<lambda>page. Inr [])"
  let ?pats = "[''acme'' \<mapsto> ''tok'']"
  let ?repos = "[repo_fresh, repo_stale]"
  have i: "0 < length ?repos" by simp
  have filled: "\<forall>repo \<in> set ?repos. filled repo"
    by (auto simp: filled_def repo_fresh_def repo_stale_def ptr_Name_def ptr_URL_def
          ptr_Private_def ptr_CloneURL_def)
  have url: "ptr_CloneURL (?repos ! 0) = Some ''https://github.com/acme/web.git''"
    by (simp add: repo_fresh_def ptr_CloneURL_def)
  have mk: "os_MkdirTemp (go_env ?w 0) = Inr ''/tmp/moss_2''"
    by (simp add: sample_world_def env_clone_fails_def)
  have cl: "cmd_Run (go_env ?w 0) ''git''
              (clone_args ''https://github.com/acme/web.git''
                 (fst (dispatch_args ?pats (?repos ! 0))) ''/tmp/moss_2'')
            = Some (Error ''exit status 128'')"
    by (simp add: sample_world_def env_clone_fails_def)
  have order: "mset (chan_order ?w) = mset [0..<length ?repos]"
    by (simp add: sample_world_def upt_rec)
  from clone_failure_is_isolated [OF i filled url mk cl order, of "''gitleaks.toml''"] order
  show ?thesis by force
qed

text \<open>
  Claim C9: the token does not reach the result or the log. Two runs of \<open>scan_repo\<close>
  that differ in the token only, and for which \<open>git clone\<close> comes back alike, send the
  same result and make the same log entries; the traces agree in every event but the
  command line of \<open>git clone\<close>, the one place where the token is written.
\<close>

theorem scan_repo_token_confined:
  assumes "\<forall>dir cloneUrl. os_MkdirTemp env = Inr dir \<and> ptr_CloneURL repo = Some cloneUrl \<longrightarrow>
             cmd_Run env ''git'' (clone_args cloneUrl pat dir) =
             cmd_Run env ''git'' (clone_args cloneUrl pat' dir)"
  shows "sends (scan_repo env repo pat orgname gl) = sends (scan_repo env repo pat' orgname gl) \<and>
         filter is_log (scan_repo env repo pat orgname gl) =
           filter is_log (scan_repo env repo pat' orgname gl) \<and>
         filter (\<lambda>e. \<not> is_git e) (scan_repo env repo pat orgname gl) =
           filter (\<lambda>e. \<not> is_git e) (scan_repo env repo pat' orgname gl)"
  using assms
  by (simp add: scan_repo_def Let_def split: sum.split option.split)

theorem scan_repo_token_confined_witness:
  "cmd_Run env_clone_fails ''git'' (clone_args ''https://github.com/acme/web.git'' ''tok'' ''/tmp/moss_2'') =
     cmd_Run env_clone_fails ''git'' (clone_args ''https://github.com/acme/web.git'' ''other'' ''/tmp/moss_2'') \<and>
   sends (scan_repo env_clone_fails repo_fresh ''tok'' ''acme'' ''gitleaks.toml'') =
     sends (scan_repo env_clone_fails repo_fresh ''other'' ''acme'' ''gitleaks.toml'') \<and>
   filter is_log (scan_repo env_clone_fails repo_fresh ''tok'' ''acme'' ''gitleaks.toml'') =
     filter is_log (scan_repo env_clone_fails repo_fresh ''other'' ''acme'' ''gitleaks.toml'') \<and>
   filter (\<lambda>e. \<not> is_git e) (scan_repo env_clone_fails repo_fresh ''tok'' ''acme'' ''gitleaks.toml'') =
     filter (\<lambda>e. \<not> is_git e) (scan_repo env_clone_fails repo_fresh ''other'' ''acme'' ''gitleaks.toml'')"
proof -
  have h: "\<forall>dir cloneUrl. os_MkdirTemp env_clone_fails = Inr dir \<and>
             ptr_CloneURL repo_fresh = Some cloneUrl \<longrightarrow>
      cmd_Run env_clone_fails ''git'' (clone_args cloneUrl ''tok'' dir) =
      cmd_Run env_clone_fails ''git'' (clone_args cloneUrl ''other'' dir)"
    by (simp add: env_clone_fails_def)
  have "cmd_Run env_clone_fails ''git'' (clone_args ''https://github.com/acme/web.git'' ''tok'' ''/tmp/moss_2'') =
          cmd_Run env_clone_fails ''git'' (clone_args ''https://github.com/acme/web.git'' ''other'' ''/tmp/moss_2'')"
    by (simp add: env_clone_fails_def)
  with scan_repo_token_confined [OF h, of "''acme''" "''gitleaks.toml''"] show ?thesis
    by blast
qed

section \<open>The scan of one repository\<close>

text \<open>
  Claim C5 says that \<open>scan_repo\<close> never raises and sends exactly one result, for every
  descriptor. The descriptor and its fields are pointers, which \<open>scan_repo\<close> follows
  without a check, where \<open>main\<close> reads the full name through the getter that checks.
  For a descriptor without a clone URL the goroutine makes its workspace and panics when
  it reads \<open>*repo.CloneURL\<close>; for a \<open>nil\<close> descriptor it panics at once. In both runs
  nothing is sent on the channel. (With the four fields in place there is exactly one
  result on every path: \<open>scan_repo_filled\<close>.)
\<close>

theorem scan_repo_panics_on_nil_field:
  "scan_repo env_ok repo_no_clone_url ''tok'' ''acme'' ''./configs/gitleaks.toml'' =
     [EvMkdirTemp,
      EvLog DebugLevel [(''repo'', ''bare''), (''dir'', ''/tmp/moss_1'')] ''tempdir set'',
      EvPanic] \<and>
   sends (scan_repo env_ok repo_no_clone_url ''tok'' ''acme'' ''./configs/gitleaks.toml'') = [] \<and>
   scan_repo env None pat orgname gl = [EvPanic] \<and>
   sends (scan_repo env None pat orgname gl) = []"
  by (simp add: scan_repo_def repo_no_clone_url_def env_ok_def ptr_Name_def ptr_URL_def
        ptr_Private_def ptr_CloneURL_def)

section \<open>The collecting loop and the count of results\<close>

text \<open>
  Claim C1 says that the collecting loop ends exactly when as many results are in as
  repositories were dispatched, for any number of them, zero included. With nothing
  dispatched the loop still receives before it compares its count: there is no sender,
  so the receive never returns and \<open>main\<close> hangs with no result collected instead of
  ending at count zero. (For a count of one or more, \<open>main_collect_loop_eq\<close> gives
  the loop exactly the first \<open>n\<close> values of the channel.)
\<close>

theorem collect_blocks_on_zero_dispatched:
  "main_collect_loop (chan_values order (main_dispatch w pats path []))
     (length ([] :: repo_ptr list)) 0 [] = None \<and>
   map_option (\<lambda>r. (goroutines r, ending r))
     (main (sample_world [] (\<lambda>page. Inr []))) = Some ([], Blocked)"
proof (rule conjI)
  have "chan_values order (main_dispatch w pats path []) = []"
    by (simp add: chan_values_def main_dispatch_def)
  then show "main_collect_loop (chan_values order (main_dispatch w pats path []))
          (length ([] :: repo_ptr list)) 0 [] = None"
    by simp
  show "map_option (\<lambda>r. (goroutines r, ending r))
          (main (sample_world [] (\<lambda>page. Inr []))) = Some ([], Blocked)"
    by code_simp
qed

section \<open>Where discovery stops\<close>



section \<open>Repositories listed twice\<close>

text \<open>
  Claim C4 says that discovery never returns a repository twice. The loop starts at page
  0, which a server that counts its pages from 1 answers as it answers page 1: against
  such a server, with a first page of recent repositories, the first page is in the
  result twice.
\<close>

theorem first_page_returned_twice:
  "get_org_repos (sample_world [''acme''] api_first_page_twice) ''acme'' ''tok'' 7 =
     Some (Ok (Inr [repo_fresh, repo_fresh]),
           [EvListByOrg ''acme'' ''tok'' 0, EvListByOrg ''acme'' ''tok'' 1,
            EvListByOrg ''acme'' ''tok'' 2]) \<and>
   \<not> distinct [repo_fresh, repo_fresh]"
  by code_simp

section \<open>Archived repositories\<close>

text \<open>
  Claim C7: discovery returns no archived repository; its outcome is the same when the
  archived repositories are taken out of every page the API serves, so that no archived
  repository, pushed whenever, stops it; and the loop over a page passes an archived
  repository by without a look at its push time.
\<close>

theorem archived_never_counts:
  "(\<forall>repos tr. get_org_repos w org pat daysago = Some (Ok (Inr repos), tr) \<longrightarrow>
      (\<forall>r \<in> set repos. ptr_Archived r = Some False)) \<and>
   get_org_repos (w\<lparr>github_ListByOrg := (\<lambda>pat org. drop_archived (github_ListByOrg w pat org))\<rparr>)
       org pat daysago = get_org_repos w org pat daysago \<and>
   (ptr_Archived a = Some True \<longrightarrow>
      scan_page time_ago (a # repos) org_repos = scan_page time_ago repos org_repos)"
proof (intro conjI allI impI)
  fix repos tr
  assume "get_org_repos w org pat daysago = Some (Ok (Inr repos), tr)"
  then have "get_org_repos_loop (github_ListByOrg w pat org) org pat
               (time_Now_AddDate w org (-1 * daysago)) [] 0 [] = Some (Ok (Inr repos), tr)"
    by (simp add: get_org_repos_def Let_def)
  from get_org_repos_loop_not_archived [OF this]
  show "\<forall>r \<in> set repos. ptr_Archived r = Some False"
    by simp
next
  show "get_org_repos (w\<lparr>github_ListByOrg := (\<lambda>pat org. drop_archived (github_ListByOrg w pat org))\<rparr>)
          org pat daysago = get_org_repos w org pat daysago"
    by (simp add: get_org_repos_def Let_def get_org_repos_loop_drop_archived)
next
  assume "ptr_Archived a = Some True"
  then show "scan_page time_ago (a # repos) org_repos = scan_page time_ago repos org_repos"
    by simp
qed

theorem archived_never_counts_witness:
  "get_org_repos (sample_world [''acme''] api_sample) ''acme'' ''tok'' 7 =
     Some (Ok (Inr [repo_fresh, repo_cased]),
           [EvListByOrg ''acme'' ''tok'' 0, EvListByOrg ''acme'' ''tok'' 1]) \<and>
   ptr_Archived repo_fresh = Some False \<and> ptr_Archived repo_cased = Some False \<and>
   ptr_Archived repo_attic = Some True \<and> ptr_PushedAt repo_attic = Some 2000 \<and>
   scan_page 595200 (repo_attic # [repo_fresh]) [] = scan_page 595200 [repo_fresh] []"
proof -
  let ?w = "sample_world [''acme''] api_sample"
  have run: "get_org_repos ?w ''acme'' ''tok'' 7 =
     Some (Ok (Inr [repo_fresh, repo_cased]),
           [EvListByOrg ''acme'' ''tok'' 0, EvListByOrg ''acme'' ''tok'' 1])"
    by code_simp
  have attic: "ptr_Archived repo_attic = Some True" "ptr_PushedAt repo_attic = Some 2000"
    by (simp_all add: repo_attic_def ptr_Archived_def ptr_PushedAt_def)
  from archived_never_counts [of ?w "''acme''" "''tok''" 7 repo_attic 595200 "[repo_fresh]" "[]"]
  have "(\<forall>repos tr. get_org_repos ?w ''acme'' ''tok'' 7 = Some (Ok (Inr repos), tr) \<longrightarrow>
          (\<forall>r \<in> set repos. ptr_Archived r = Some False))"
    and "ptr_Archived repo_attic = Some True \<longrightarrow>
           scan_page 595200 (repo_attic # [repo_fresh]) [] = scan_page 595200 [repo_fresh] []"
    by blast+
  with run attic show ?thesis
    by simp
qed

section \<open>Runs that do not end\<close>

text \<open>
  Claim C2 says that every run reaches the end of \<open>main\<close> and emits the report, also for
  an organization all of whose repositories were pushed within the window. For such an
  organization no page holds a stale repository, the pages after the last are empty, and
  the loop of \<open>get_org_repos\<close> asks for page after page without end: discovery does not
  return, and neither does \<open>main\<close>.
\<close>

theorem discovery_of_all_recent_never_returns:
  "get_org_repos (sample_world [''acme''] api_all_recent) ''acme'' ''tok'' 7 = None \<and>
   main (sample_world [''acme''] api_all_recent) = None"
proof -
  let ?w = "sample_world [''acme''] api_all_recent"
  have f: "os_Getenv ?w = (\<lambda>k. if k = ''PAT_acme'' then ''tok'' else [])"
    "conf_getConfig ?w = (\<lambda>path. \<lparr>OrgsToScan = [''acme''], DaysToScan = 7, Format = ''json''\<rparr>)"
    "toml_ReadFile ?w = (\<lambda>path. Inr ''title = 0'')"
    "range_pats ?w = [''acme'']"
    "github_ListByOrg ?w = (\<lambda>pat org. api_all_recent)"
    by (simp_all add: sample_world_def)
  have "\<forall>q \<ge> 0. \<exists>rs. api_all_recent q = Inr rs \<and>
          (\<forall>r \<in> set rs. passes (time_Now_AddDate ?w ''acme'' (-1 * 7)) r)"
    by (simp add: api_all_recent_def passes_def recent_def repo_fresh_def sample_world_def
          ptr_Archived_def ptr_PushedAt_def)
  then have d: "get_org_repos ?w ''acme'' ''tok'' 7 = None"
    unfolding get_org_repos_def Let_def f by (rule get_org_repos_loop_never_returns)
  have "main ?w = None"
    by (simp add: main_def main_setup_def check_gitleaks_conf_def Let_def f d)
  with d show ?thesis by simp
qed

section \<open>The configuration check\<close>

text \<open>
  Claim C6: when the file at the gitleaks configuration path (the variable
  \<open>MOSS_GITLEAKSCONF\<close>, or the default path) cannot be read, the process exits with
  status 1 inside \<open>check_gitleaks_conf\<close>. Up to there \<open>main\<close> has called neither the
  hosting API nor a subprocess, and no goroutine was started.
\<close>

theorem unreadable_gitleaks_conf_is_fatal:
  assumes start: "main_setup w = (tr, conf, gitleaks_toml_path)"
    and unreadable: "toml_ReadFile w gitleaks_toml_path = Inl err"
  shows "main w =
           Some \<lparr>main_trace = tr @
                   [EvReadFile gitleaks_toml_path,
                    EvLog FatalLevel [(''error'', error_text err), (''path'', gitleaks_toml_path)]
                      ''failed to read gitleaks toml''],
                 goroutines = [], ending = Exited 1\<rparr> \<and>
         (\<forall>e \<in> set (tr @
                   [EvReadFile gitleaks_toml_path,
                    EvLog FatalLevel [(''error'', error_text err), (''path'', gitleaks_toml_path)]
                      ''failed to read gitleaks toml'']).
            \<not> is_network_or_subprocess e) \<and>
         gitleaks_toml_path =
           (if os_Getenv w ''MOSS_GITLEAKSCONF'' = [] then ''./configs/gitleaks.toml''
            else os_Getenv w ''MOSS_GITLEAKSCONF'')"
proof (intro conjI)
  show "main w =
           Some \<lparr>main_trace = tr @
                   [EvReadFile gitleaks_toml_path,
                    EvLog FatalLevel [(''error'', error_text err), (''path'', gitleaks_toml_path)]
                      ''failed to read gitleaks toml''],
                 goroutines = [], ending = Exited 1\<rparr>"
    using start unreadable by (simp add: main_def check_gitleaks_conf_def)
  show "\<forall>e \<in> set (tr @
                   [EvReadFile gitleaks_toml_path,
                    EvLog FatalLevel [(''error'', error_text err), (''path'', gitleaks_toml_path)]
                      ''failed to read gitleaks toml'']).
            \<not> is_network_or_subprocess e"
    using start by (auto simp: main_setup_def Let_def split: if_splits)
  show "gitleaks_toml_path =
           (if os_Getenv w ''MOSS_GITLEAKSCONF'' = [] then ''./configs/gitleaks.toml''
            else os_Getenv w ''MOSS_GITLEAKSCONF'')"
    using start by (auto simp: main_setup_def Let_def split: if_splits)
qed

theorem unreadable_gitleaks_conf_is_fatal_witness:
  "toml_ReadFile world_no_toml ''./configs/gitleaks.toml'' =
     Inl (Error ''open ./configs/gitleaks.toml: no such file or directory'') \<and>
   main world_no_toml =
     Some \<lparr>main_trace =
             [EvLog InfoLevel [] ''logging setup'', EvGetenv ''MOSS_DEBUG'',
              EvGetenv ''MOSS_CONFDIR'', EvGetConfig ''./configs/conf.yml'',
              EvGetenv ''MOSS_GITLEAKSCONF'',
              EvLog DebugLevel [] ''gitleaks toml path was empty, using default'',
              EvReadFile ''./configs/gitleaks.toml'',
              EvLog FatalLevel
                [(''error'', ''open ./configs/gitleaks.toml: no such file or directory''),
                 (''path'', ''./configs/gitleaks.toml'')]
                ''failed to read gitleaks toml''],
           goroutines = [], ending = Exited 1\<rparr>"
proof -
  have start: "main_setup world_no_toml =
      ([EvLog InfoLevel [] ''logging setup'', EvGetenv ''MOSS_DEBUG'',
        EvGetenv ''MOSS_CONFDIR'', EvGetConfig ''./configs/conf.yml'',
        EvGetenv ''MOSS_GITLEAKSCONF'',
        EvLog DebugLevel [] ''gitleaks toml path was empty, using default''],
       conf_getConfig world_no_toml ''./configs/conf.yml'', ''./configs/gitleaks.toml'')"
    by (simp add: main_setup_def world_no_toml_def sample_world_def Let_def)
  have unreadable: "toml_ReadFile world_no_toml ''./configs/gitleaks.toml'' =
      Inl (Error ''open ./configs/gitleaks.toml: no such file or directory'')"
    by (simp add: world_no_toml_def)
  from unreadable unreadable_gitleaks_conf_is_fatal [OF start unreadable] show ?thesis
    by simp
qed

section \<open>The token handed to a scan\<close>

text \<open>
  Claim C10: in a run of \<open>main\<close> that gets past the configuration check and whose
  discovery returns the repositories \<open>all_repos\<close>, \<open>main\<close> starts one goroutine for each
  of them, in order, and the \<open>i\<close>-th is \<open>scan_repo\<close> on the \<open>i\<close>-th repository with, as
  its token, the entry of the map \<open>pats\<close> under the part of the repository's full name
  before the first \<open>/\<close>, and with that part as its organization name. The repository was
  listed for an organization of the map with the token the map holds for it; whenever
  the part of the name is an organization the repository was listed for, the token
  passed is the token it was listed with. It is the token of the environment when the
  part of the name is a configured organization that has one, and the empty string when
  it is no configured organization at all.
\<close>

theorem main_passes_token_by_name_prefix:
  assumes start: "main_setup w = (tr, conf, gitleaks_toml_path)"
    and readable: "toml_ReadFile w gitleaks_toml_path = Inr contents"
    and pats: "pats = fst (main_pats_loop w (OrgsToScan conf) Map.empty
                             (tr @ [EvReadFile gitleaks_toml_path]))"
    and tr2: "tr2 = snd (main_pats_loop w (OrgsToScan conf) Map.empty
                           (tr @ [EvReadFile gitleaks_toml_path]))"
    and found: "main_discover_loop w conf pats (range_pats w) [] tr2 = Some (Ok all_repos, tr3)"
    and i: "i < length all_repos"
    and prefix: "name_prefix = takeWhile (\<lambda>c. c \<noteq> CHR ''/'') (GetFullName (all_repos ! i))"
    and pat: "pat = (case pats name_prefix of None \<Rightarrow> [] | Some p \<Rightarrow> p)"
  shows "(\<exists>run. main w = Some run \<and> length (goroutines run) = length all_repos \<and>
            goroutines run ! i =
              scan_repo (go_env w i) (all_repos ! i) pat name_prefix gitleaks_toml_path) \<and>
         (\<exists>org \<in> set (range_pats w). \<exists>tok repos t. pats org = Some tok \<and>
            get_org_repos w org tok (DaysToScan conf) = Some (Ok (Inr repos), t) \<and>
            all_repos ! i \<in> set repos) \<and>
         (\<forall>org tok repos t. pats org = Some tok \<and>
            get_org_repos w org tok (DaysToScan conf) = Some (Ok (Inr repos), t) \<and>
            all_repos ! i \<in> set repos \<and> name_prefix = org \<longrightarrow> pat = tok) \<and>
         (\<forall>org tok. org \<in> set (OrgsToScan conf) \<and> os_Getenv w (''PAT_'' @ org) = tok \<and>
            tok \<noteq> [] \<and> name_prefix = org \<longrightarrow> pats org = Some tok \<and> pat = tok) \<and>
         (name_prefix \<notin> set (OrgsToScan conf) \<longrightarrow> pat = [])"
proof (intro conjI allI impI)
  have loop: "main_pats_loop w (OrgsToScan conf) Map.empty (tr @ [EvReadFile gitleaks_toml_path])
                = (pats, tr2)"
    by (simp add: pats tr2)
  have "\<exists>run. main w = Some run \<and>
          goroutines run = main_dispatch w pats gitleaks_toml_path all_repos"
    using start readable loop found
    by (simp add: main_def check_gitleaks_conf_def Let_def split: option.split)
  then obtain run where run: "main w = Some run"
      "goroutines run = main_dispatch w pats gitleaks_toml_path all_repos"
    by blast
  have "goroutines run ! i =
          scan_repo (go_env w i) (all_repos ! i) pat name_prefix gitleaks_toml_path"
    using i by (simp add: run(2) main_dispatch_nth dispatch_args_def Let_def hd_strings_Split
                  prefix pat)
  with run show "\<exists>run. main w = Some run \<and> length (goroutines run) = length all_repos \<and>
            goroutines run ! i =
              scan_repo (go_env w i) (all_repos ! i) pat name_prefix gitleaks_toml_path"
    by (simp add: length_main_dispatch)
next
  from main_discover_loop_found [OF found] i
  show "\<exists>org \<in> set (range_pats w). \<exists>tok repos t. pats org = Some tok \<and>
            get_org_repos w org tok (DaysToScan conf) = Some (Ok (Inr repos), t) \<and>
            all_repos ! i \<in> set repos"
    by (simp add: nth_mem)
next
  fix org tok repos t
  assume "pats org = Some tok \<and>
            get_org_repos w org tok (DaysToScan conf) = Some (Ok (Inr repos), t) \<and>
            all_repos ! i \<in> set repos \<and> name_prefix = org"
  then show "pat = tok"
    by (simp add: pat)
next
  fix org tok
  assume h: "org \<in> set (OrgsToScan conf) \<and> os_Getenv w (''PAT_'' @ org) = tok \<and>
             tok \<noteq> [] \<and> name_prefix = org"
  then show "pats org = Some tok"
    unfolding pats main_pats_loop_lookup by simp
  with h show "pat = tok"
    by (simp add: pat)
next
  assume "name_prefix \<notin> set (OrgsToScan conf)"
  then have "pats name_prefix = None"
    unfolding pats main_pats_loop_lookup by simp
  then show "pat = []"
    by (simp add: pat)
qed

theorem main_passes_token_by_name_prefix_witness:
  "\<exists>run. main (sample_world [''acme''] api_one_page) = Some run \<and>
     length (goroutines run) = 2 \<and>
     goroutines run ! 0 =
       scan_repo env_clone_fails repo_fresh ''tok'' ''acme'' ''./configs/gitleaks.toml'' \<and>
     goroutines run ! 1 =
       scan_repo env_ok repo_cased [] ''Acme'' ''./configs/gitleaks.toml''"
proof -
  let ?w = "sample_world [''acme''] api_one_page"
  let ?conf = "\<lparr>OrgsToScan = [''acme''], DaysToScan = 7, Format = ''json''\<rparr>"
  let ?tr = "[EvLog InfoLevel [] ''logging setup'', EvGetenv ''MOSS_DEBUG'',
        EvGetenv ''MOSS_CONFDIR'', EvGetConfig ''./configs/conf.yml'',
        EvGetenv ''MOSS_GITLEAKSCONF'',
        EvLog DebugLevel [] ''gitleaks toml path was empty, using default'']"
  let ?path = "''./configs/gitleaks.toml''"
  let ?pats = "fst (main_pats_loop ?w (OrgsToScan ?conf) Map.empty (?tr @ [EvReadFile ?path]))"
  let ?tr2 = "snd (main_pats_loop ?w (OrgsToScan ?conf) Map.empty (?tr @ [EvReadFile ?path]))"
  let ?repos = "[repo_fresh, repo_cased]"
  have start: "main_setup ?w = (?tr, ?conf, ?path)"
    by (simp add: main_setup_def sample_world_def Let_def)
  have readable: "toml_ReadFile ?w ?path = Inr ''title = 0''"
    by (simp add: sample_world_def)
  have found: "main_discover_loop ?w ?conf ?pats (range_pats ?w) [] ?tr2 =
                 Some (Ok ?repos, ?tr2 @ [EvListByOrg ''acme'' ''tok'' 0])"
    by code_simp
  have p0: "''acme'' = takeWhile (\<lambda>c. c \<noteq> CHR ''/'') (GetFullName (?repos ! 0))"
    by (simp add: repo_fresh_def GetFullName_def)
  have p1: "''Acme'' = takeWhile (\<lambda>c. c \<noteq> CHR ''/'') (GetFullName (?repos ! 1))"
    by (simp add: repo_cased_def GetFullName_def)
  have t0: "''tok'' = (case ?pats ''acme'' of None \<Rightarrow> [] | Some p \<Rightarrow> p)"
    by (simp add: sample_world_def)
  have t1: "[] = (case ?pats ''Acme'' of None \<Rightarrow> [] | Some p \<Rightarrow> p)"
    by (simp add: sample_world_def)
  have g0: "go_env ?w 0 = env_clone_fails" and g1: "go_env ?w 1 = env_ok"
    by (simp_all add: sample_world_def)
  have i0: "0 < length ?repos" and i1: "1 < length ?repos"
    by simp_all
  note first = main_passes_token_by_name_prefix [OF start readable refl refl found i0 p0 t0,
      THEN conjunct1]
  note second = main_passes_token_by_name_prefix [OF start readable refl refl found i1 p1 t1,
      THEN conjunct1]
  from first obtain run where run: "main ?w = Some run"
      "length (goroutines run) = length ?repos"
      "goroutines run ! 0 = scan_repo (go_env ?w 0) (?repos ! 0) ''tok'' ''acme'' ?path"
    by blast
  from second obtain run' where run': "main ?w = Some run'"
      "goroutines run' ! 1 = scan_repo (go_env ?w 1) (?repos ! 1) [] ''Acme'' ?path"
    by blast
  from run(1) run'(1) have "run' = run" by simp
  with run run'(2) show ?thesis
    unfolding g0 g1 by simp
qed

end
